theory Spec2Isabelle
  imports Main "HOL-Library.Word" "HOL-Library.AList" "HOL-Library.DAList"
begin

unbundle bit_operations_syntax

section \<open>The metadata store of the caching file system\<close>

text \<open>
  This theory embeds the member functions of \<^verbatim>\<open>MetadataStore\<close> (the source file
  src/unnamed/part_001): the SQLite-backed table of cache rows and the per-object
  dirty-block bitmaps with their on-disk form.

  Conventions of the embedding.
  \<^item> A member function becomes a function from the object (and the part of the outside
    world it touches) to its return value and the new object and world.
  \<^item> A bit vector is a list and its size a \<open>nat\<close>; allocation is taken to succeed. The
    argument \<^verbatim>\<open>block_idx\<close>, on which the code computes, is a 64-bit word, so that
    \<^verbatim>\<open>block_idx + 1\<close> wraps around as \<^verbatim>\<open>std::size_t\<close> does; a write outside the vector
    is undefined behaviour, the result \<open>None\<close>.
  \<^item> \<^verbatim>\<open>uint8_t\<close> is \<open>8 word\<close>; the \<^verbatim>\<open>1u << b\<close> masks are \<open>32 word\<close>, with the integer
    promotions and the narrowing assignment written out as \<open>ucast\<close>.
  \<^item> Text is \<open>string\<close>, a \<^verbatim>\<open>std::string\<close> that may hold any byte. Where the code hands
    \<^verbatim>\<open>c_str()\<close> to SQLite with length \<open>-1\<close>, or builds a \<^verbatim>\<open>std::string\<close> from a C
    string, the text ends before its first NUL byte: \<open>c_str\<close>.
  \<^item> The file system is a flat map from path to file content; directories are implicit.
    Each call whose failure the code can observe fails when the file system says so,
    per path: creating the directories (\<^verbatim>\<open>fs::create_directories\<close> then throws
    \<^verbatim>\<open>fs::filesystem_error\<close>, which no function of the store catches), an open, a
    write that stores fewer bytes than asked, a read.
  \<^item> A function that can be left by that exception has an \<open>outcome\<close>: \<open>Returns v\<close> or
    \<open>Throws\<close>, together with the object and the world at that moment.
\<close>

subsection \<open>Bit vectors and their packed form\<close>

type_synonym u8 = "8 word"
type_synonym u32 = "32 word"


text \<open>\<^verbatim>\<open>BitVec\<close> is \<^verbatim>\<open>std::vector<bool>\<close>.\<close>

type_synonym BitVec = "bool list"

text \<open>\<^verbatim>\<open>vec.resize(n, false)\<close>: truncate, or extend with \<open>False\<close>.\<close>

definition resize :: "nat \<Rightarrow> BitVec \<Rightarrow> BitVec" where
  "resize n vec = take n vec @ replicate (n - length vec) False"

text \<open>
  The body of the packing loop of \<^verbatim>\<open>persistBitmap\<close>:
  \<^verbatim>\<open>if (bits[i]) bytes[i / 8] |= (1u << (i % 8));\<close>
\<close>

definition pack_step :: "BitVec \<Rightarrow> nat \<Rightarrow> u8 list \<Rightarrow> u8 list" where
  "pack_step bits i bytes =
     (if bits ! i
      then bytes[i div 8 := ucast ((ucast (bytes ! (i div 8)) :: u32) OR push_bit (i mod 8) 1)]
      else bytes)"

text \<open>
  \<^verbatim>\<open>std::vector<uint8_t> bytes((bits.size() + 7) / 8, 0);
  for (std::size_t i = 0; i < bits.size(); ++i) ...\<close>
\<close>

definition pack_bits :: "BitVec \<Rightarrow> u8 list" where
  "pack_bits bits =
     fold (pack_step bits) [0..<length bits] (replicate ((length bits + 7) div 8) 0)"

text \<open>
  The loops of \<^verbatim>\<open>loadBitmap\<close>:
  \<^verbatim>\<open>for (i = 0; i < bytes.size(); ++i)
    for (b = 0; b < 8; ++b) vec[i * 8 + b] = bytes[i] & (1u << b);\<close>
  The assignment converts the masked value to \<^verbatim>\<open>bool\<close>: non-zero is true.
\<close>

definition unpack_bit :: "u8 list \<Rightarrow> nat \<Rightarrow> nat \<Rightarrow> BitVec \<Rightarrow> BitVec" where
  "unpack_bit bytes i b vec =
     vec[i * 8 + b := ((ucast (bytes ! i) :: u32) AND push_bit b 1) \<noteq> 0]"

definition unpack_byte :: "u8 list \<Rightarrow> nat \<Rightarrow> BitVec \<Rightarrow> BitVec" where
  "unpack_byte bytes i vec = fold (unpack_bit bytes i) [0..<8] vec"

definition unpack_all :: "u8 list \<Rightarrow> BitVec \<Rightarrow> BitVec" where
  "unpack_all bytes vec = fold (unpack_byte bytes) [0..<length bytes] vec"

subsection \<open>The file system\<close>

record filesystem =
  files :: "string \<rightharpoonup> u8 list"
  mkdir_fails :: "string \<Rightarrow> bool"
  wr_denied :: "string \<Rightarrow> bool"
  wr_room :: "string \<Rightarrow> nat option"
  rd_denied :: "string \<Rightarrow> bool"
  rd_error :: "string \<Rightarrow> bool"

text \<open>\<^verbatim>\<open>fs::exists(path)\<close> and \<^verbatim>\<open>fs::file_size(path)\<close>.\<close>

definition fs_exists :: "filesystem \<Rightarrow> string \<Rightarrow> bool" where
  "fs_exists fs path = (files fs path \<noteq> None)"

definition file_size :: "filesystem \<Rightarrow> string \<Rightarrow> nat" where
  "file_size fs path = (case files fs path of None \<Rightarrow> 0 | Some content \<Rightarrow> length content)"

text \<open>\<^verbatim>\<open>fs::path(path).parent_path()\<close>\<close>

definition parent_path :: "string \<Rightarrow> string" where
  "parent_path path = rev (drop 1 (dropWhile (\<lambda>c. c \<noteq> CHR ''/'') (rev path)))"

text \<open>
  \<^verbatim>\<open>fs::create_directories(dir)\<close>, the overload without an \<^verbatim>\<open>error_code\<close>: it throws
  \<^verbatim>\<open>fs::filesystem_error\<close> when a directory cannot be created, here \<open>None\<close>. When it
  returns, the directory and its ancestors exist, which the flat map does not record.
\<close>

definition create_directories :: "filesystem \<Rightarrow> string \<Rightarrow> filesystem option" where
  "create_directories fs dir = (if mkdir_fails fs dir then None else Some fs)"

text \<open>How a call ends: with a value, or by the exception.\<close>

datatype 'a outcome = Returns 'a | Throws

text \<open>
  \<^verbatim>\<open>::open(path, O_RDWR | O_CREAT | O_TRUNC, 0644)\<close>: \<open>None\<close> is a negative descriptor;
  otherwise the file exists afterwards and is empty.
\<close>

definition open_trunc :: "filesystem \<Rightarrow> string \<Rightarrow> filesystem option" where
  "open_trunc fs path =
     (if wr_denied fs path then None else Some (fs\<lparr>files := (files fs)(path \<mapsto> [])\<rparr>))"

text \<open>
  \<^verbatim>\<open>::write(fd, data, size)\<close> on the descriptor just opened (offset 0, empty file). The
  result is the number of bytes stored, or \<open>-1\<close> when none of a non-empty request can be.
\<close>

definition sys_write :: "filesystem \<Rightarrow> string \<Rightarrow> u8 list \<Rightarrow> int \<times> filesystem" where
  "sys_write fs path data =
     (case wr_room fs path of
        None \<Rightarrow> (int (length data), fs\<lparr>files := (files fs)(path \<mapsto> data)\<rparr>)
      | Some k \<Rightarrow>
          if k = 0 \<and> data \<noteq> [] then (- 1, fs)
          else (int (min k (length data)), fs\<lparr>files := (files fs)(path \<mapsto> take k data)\<rparr>))"

text \<open>\<^verbatim>\<open>::open(path, O_RDONLY)\<close>: whether a descriptor is returned.\<close>

definition open_rdonly :: "filesystem \<Rightarrow> string \<Rightarrow> bool" where
  "open_rdonly fs path = (fs_exists fs path \<and> \<not> rd_denied fs path)"

text \<open>
  \<^verbatim>\<open>::pread(fd, bytes.data(), bytes.size(), 0)\<close> into the zero-initialised buffer \<open>buf\<close>:
  the result and the buffer afterwards.
\<close>

definition sys_pread :: "filesystem \<Rightarrow> string \<Rightarrow> u8 list \<Rightarrow> int \<times> u8 list" where
  "sys_pread fs path buf =
     (if rd_error fs path then (- 1, buf)
      else (let got = take (length buf) (case files fs path of None \<Rightarrow> [] | Some content \<Rightarrow> content)
            in (int (length got), got @ drop (length got) buf)))"

subsection \<open>The path layout\<close>

text \<open>
  Modelled from the spec: \<^verbatim>\<open>bitmap_path\<close> of fs_layout.h, which is not among the sources.
  The layout section gives
  \<^verbatim>\<open>{root}/bitmap/{hh[0:2]}/{hh[2:4]}/{hh}/part_{part_idx:08d}.bmp\<close>.
\<close>

fun decimal :: "nat \<Rightarrow> string" where
  "decimal n =
     (if n < 10 then [''0123456789'' ! n]
      else decimal (n div 10) @ [''0123456789'' ! (n mod 10)])"

declare decimal.simps [simp del]

definition pad8 :: "string \<Rightarrow> string" where
  "pad8 digits = replicate (8 - length digits) CHR ''0'' @ digits"

definition bitmap_path :: "string \<Rightarrow> string \<Rightarrow> nat \<Rightarrow> string" where
  "bitmap_path root hh part_idx =
     root @ ''/bitmap/'' @ take 2 hh @ ''/'' @ take 2 (drop 2 hh) @ ''/'' @ hh
       @ ''/part_'' @ pad8 (decimal part_idx) @ ''.bmp''"

text \<open>
  The number a string of decimal digits stands for. It reads the part index back from
  the file name, which is how different parts are seen to have different files.
\<close>

definition dec_value :: "string \<Rightarrow> nat" where
  "dec_value digits = foldl (\<lambda>a c. 10 * a + (of_char c - 48)) 0 digits"

subsection \<open>The embedded database\<close>

text \<open>
  The table \<^verbatim>\<open>metadata\<close> has the primary key \<^verbatim>\<open>path\<close> and five more columns. SQLite
  integers are 64-bit.
\<close>

type_synonym i64 = "64 word"

record db_row =
  col_local_path :: string
  col_size :: i64
  col_timestamp :: i64
  col_last_accessed :: i64
  col_dirty :: i64

text \<open>
  An open connection: the rows of the table by key, and whether the engine currently
  fails to run statements (an I/O error, a locked or read-only database file). A
  statement that fails changes no row.
\<close>

record sqlite3 =
  metadata :: "string \<rightharpoonup> db_row"
  step_fails :: bool

datatype sqlite_rc = SQLITE_OK | SQLITE_ERROR | SQLITE_MISUSE | SQLITE_ROW | SQLITE_DONE

text \<open>
  Text as SQLite and \<^verbatim>\<open>std::string\<close> take it from a \<^verbatim>\<open>const char*\<close>:
  \<^verbatim>\<open>sqlite3_bind_text(stmt, i, s.c_str(), -1, SQLITE_TRANSIENT)\<close> binds the bytes before the
  first NUL, and assigning the \<^verbatim>\<open>const char*\<close> of \<^verbatim>\<open>sqlite3_column_text\<close> to a
  \<^verbatim>\<open>std::string\<close> copies the bytes before the first NUL.
\<close>

definition c_str :: "string \<Rightarrow> string" where
  "c_str s = takeWhile (\<lambda>c. c \<noteq> CHR 0x00) s"

text \<open>\<^verbatim>\<open>sqlite3_prepare_v2\<close> on the handle: a null handle is a misuse.\<close>

definition sqlite3_prepare_v2 :: "sqlite3 option \<Rightarrow> sqlite_rc" where
  "sqlite3_prepare_v2 h = (case h of None \<Rightarrow> SQLITE_MISUSE | Some db \<Rightarrow> SQLITE_OK)"

text \<open>The statements of the store, with their bound parameters.\<close>

datatype stmt =
    Upsert string db_row
  | UpdateLastAccessed i64 string
  | UpdateDirty i64 string
  | Select string

text \<open>
  \<^verbatim>\<open>sqlite3_step\<close>: the result code, the row a \<^verbatim>\<open>SELECT\<close> is positioned on, and the
  connection afterwards.
  \<^item> \<^verbatim>\<open>INSERT ... ON CONFLICT(path) DO UPDATE SET\<close> all five columns from the new values;
  \<^item> \<^verbatim>\<open>UPDATE metadata SET c=? WHERE path=?\<close> changes the rows that match, possibly none.
\<close>

definition sqlite3_step :: "sqlite3 \<Rightarrow> stmt \<Rightarrow> sqlite_rc \<times> db_row option \<times> sqlite3" where
  "sqlite3_step db st =
     (if step_fails db then (SQLITE_ERROR, None, db)
      else case st of
        Upsert key row \<Rightarrow> (SQLITE_DONE, None, db\<lparr>metadata := (metadata db)(key \<mapsto> row)\<rparr>)
      | UpdateLastAccessed t key \<Rightarrow>
          (case metadata db key of
             None \<Rightarrow> (SQLITE_DONE, None, db)
           | Some row \<Rightarrow>
               (SQLITE_DONE, None,
                db\<lparr>metadata := (metadata db)(key \<mapsto> row\<lparr>col_last_accessed := t\<rparr>)\<rparr>))
      | UpdateDirty d key \<Rightarrow>
          (case metadata db key of
             None \<Rightarrow> (SQLITE_DONE, None, db)
           | Some row \<Rightarrow>
               (SQLITE_DONE, None, db\<lparr>metadata := (metadata db)(key \<mapsto> row\<lparr>col_dirty := d\<rparr>)\<rparr>))
      | Select key \<Rightarrow>
          (case metadata db key of
             None \<Rightarrow> (SQLITE_DONE, None, db)
           | Some row \<Rightarrow> (SQLITE_ROW, Some row, db)))"

subsection \<open>The store\<close>

text \<open>
  Modelled from the spec: \<^verbatim>\<open>CacheMetadata\<close> and the members of \<^verbatim>\<open>MetadataStore\<close> are
  declared in metadata_store.h, which is not among the sources. The fields are the
  ones the member functions use; \<^verbatim>\<open>size\<close> and the two \<^verbatim>\<open>std::time_t\<close> fields are 64-bit, so
  the casts to and from \<^verbatim>\<open>sqlite3_int64\<close> keep the bits. \<^verbatim>\<open>bitmap_\<close> maps a hash to the
  parts of the object, each with its bit vector. The parts are a map from part index
  to vector: an association list with distinct keys, whose order is the order of
  iteration.

  Names: the field \<^verbatim>\<open>size\<close> is \<open>size_bytes\<close> here, and the members \<^verbatim>\<open>db_handle_\<close>,
  \<^verbatim>\<open>cache_root_\<close> and \<^verbatim>\<open>bitmap_\<close> lose their final underscore.
\<close>

record CacheMetadata =
  path :: string
  local_path :: string
  size_bytes :: i64
  timestamp :: i64
  last_accessed :: i64
  dirty :: bool

record MetadataStore =
  db_handle :: "sqlite3 option"
  cache_root :: string
  bitmap :: "string \<rightharpoonup> (nat, BitVec) alist"

text \<open>The bit vector kept for a part of an object, if there is one.\<close>

definition bits_of :: "MetadataStore \<Rightarrow> string \<Rightarrow> nat \<Rightarrow> BitVec option" where
  "bits_of s hash_hex part_idx =
     (case bitmap s hash_hex of None \<Rightarrow> None | Some parts \<Rightarrow> DAList.lookup parts part_idx)"

text \<open>
  \<^verbatim>\<open>bitmap_[hash_hex][part_idx]\<close>: both \<^verbatim>\<open>operator[]\<close> insert an empty value for a missing
  key. \<open>vec_at\<close> is the vector the reference designates, \<open>vec_store\<close> an assignment
  through it.
\<close>

definition vec_at :: "MetadataStore \<Rightarrow> string \<Rightarrow> nat \<Rightarrow> BitVec" where
  "vec_at s hash_hex part_idx = (case bits_of s hash_hex part_idx of None \<Rightarrow> [] | Some vec \<Rightarrow> vec)"

definition vec_store :: "MetadataStore \<Rightarrow> string \<Rightarrow> nat \<Rightarrow> BitVec \<Rightarrow> MetadataStore" where
  "vec_store s hash_hex part_idx vec =
     s\<lparr>bitmap := (bitmap s)(hash_hex \<mapsto>
          DAList.update part_idx vec
            (case bitmap s hash_hex of None \<Rightarrow> DAList.empty | Some parts \<Rightarrow> parts))\<rparr>"


text \<open>\<^verbatim>\<open>MetadataStore::persistBitmap\<close>\<close>

definition persistBitmap ::
  "MetadataStore \<Rightarrow> filesystem \<Rightarrow> string \<Rightarrow> nat \<Rightarrow> BitVec
     \<Rightarrow> bool outcome \<times> MetadataStore \<times> filesystem"
where
  "persistBitmap s fs hash_hex part_idx bits =
     (if bits = [] then (Returns True, s, fs)
      else
        let p = bitmap_path (cache_root s) hash_hex part_idx
        in case create_directories fs (parent_path p) of
             None \<Rightarrow> (Throws, s, fs)
           | Some fs \<Rightarrow>
               (let bytes = pack_bits bits
                in case open_trunc fs p of
                     None \<Rightarrow> (Returns False, s, fs)
                   | Some fs \<Rightarrow>
                       (let (n, fs) = sys_write fs p bytes
                        in (Returns (n = int (length bytes)), s, fs))))"

text \<open>
  \<^verbatim>\<open>MetadataStore::flushBitmaps\<close>. The loop
  \<^verbatim>\<open>for (auto& [part_idx, bits] : it->second) ok &= persistBitmap(hash_hex, part_idx, bits);\<close>
  goes on after a part that returned false; an exception ends it.
\<close>

fun flush_parts ::
  "string \<Rightarrow> (nat \<times> BitVec) list \<Rightarrow> bool \<times> MetadataStore \<times> filesystem
     \<Rightarrow> bool outcome \<times> MetadataStore \<times> filesystem"
where
  "flush_parts hash_hex [] (ok, s, fs) = (Returns ok, s, fs)"
| "flush_parts hash_hex ((part_idx, bits) # rest) (ok, s, fs) =
     (case persistBitmap s fs hash_hex part_idx bits of
        (Throws, s, fs) \<Rightarrow> (Throws, s, fs)
      | (Returns r, s, fs) \<Rightarrow> flush_parts hash_hex rest (ok \<and> r, s, fs))"

definition flushBitmaps ::
  "MetadataStore \<Rightarrow> filesystem \<Rightarrow> string \<Rightarrow> bool outcome \<times> MetadataStore \<times> filesystem"
where
  "flushBitmaps s fs hash_hex =
     (case bitmap s hash_hex of
        None \<Rightarrow> (Returns True, s, fs)
      | Some parts \<Rightarrow> flush_parts hash_hex (DAList.impl_of parts) (True, s, fs))"

text \<open>\<^verbatim>\<open>MetadataStore::loadBitmap\<close>\<close>

definition loadBitmap ::
  "MetadataStore \<Rightarrow> filesystem \<Rightarrow> string \<Rightarrow> nat \<Rightarrow> bool \<times> MetadataStore \<times> filesystem"
where
  "loadBitmap s fs hash_hex part_idx =
     (let p = bitmap_path (cache_root s) hash_hex part_idx
      in if \<not> fs_exists fs p then (True, s, fs)
         else if \<not> open_rdonly fs p then (False, s, fs)
         else
           let (n, bytes) = sys_pread fs p (replicate ((file_size fs p + 7) div 8) 0)
           in if n < 0 then (False, s, fs)
              else
                let vec = vec_at s hash_hex part_idx;
                    vec = resize (length bytes * 8) vec;
                    vec = unpack_all bytes vec
                in (True, vec_store s hash_hex part_idx vec, fs))"

text \<open>
  \<^verbatim>\<open>MetadataStore::get\<close>. The key is bound as a C string; \<^verbatim>\<open>meta.path\<close> is the argument
  itself, \<^verbatim>\<open>meta.local_path\<close> is read from the column as a C string.
\<close>

definition get :: "MetadataStore \<Rightarrow> string \<Rightarrow> CacheMetadata option" where
  "get s p =
     (if sqlite3_prepare_v2 (db_handle s) \<noteq> SQLITE_OK then None
      else case db_handle s of
        None \<Rightarrow> None
      | Some db \<Rightarrow>
          (case sqlite3_step db (Select (c_str p)) of
             (rc, Some row, db') \<Rightarrow>
               if rc = SQLITE_ROW
               then Some \<lparr>path = p,
                          local_path = c_str (col_local_path row),
                          size_bytes = col_size row,
                          timestamp = col_timestamp row,
                          last_accessed = col_last_accessed row,
                          dirty = ((ucast (col_dirty row) :: u32) \<noteq> 0)\<rparr>
               else None
           | (rc, None, db') \<Rightarrow> None))"

text \<open>
  The write statements share their shape: prepare, bind, step, and report whether the
  step ended with \<^verbatim>\<open>SQLITE_DONE\<close>.
\<close>

definition run_stmt :: "MetadataStore \<Rightarrow> stmt \<Rightarrow> bool \<times> MetadataStore" where
  "run_stmt s st =
     (if sqlite3_prepare_v2 (db_handle s) \<noteq> SQLITE_OK then (False, s)
      else case db_handle s of
        None \<Rightarrow> (False, s)
      | Some db \<Rightarrow>
          (let (rc, row, db') = sqlite3_step db st
           in (rc = SQLITE_DONE, s\<lparr>db_handle := Some db'\<rparr>)))"

text \<open>
  \<^verbatim>\<open>MetadataStore::put\<close>: \<^verbatim>\<open>meta.path.c_str()\<close> and \<^verbatim>\<open>meta.local_path.c_str()\<close> are bound
  with length \<open>-1\<close>.
\<close>

definition put :: "MetadataStore \<Rightarrow> CacheMetadata \<Rightarrow> bool \<times> MetadataStore" where
  "put s meta =
     run_stmt s
       (Upsert (c_str (path meta))
          \<lparr>col_local_path = c_str (local_path meta),
           col_size = size_bytes meta,
           col_timestamp = timestamp meta,
           col_last_accessed = last_accessed meta,
           col_dirty = (if dirty meta then 1 else 0)\<rparr>)"



subsection \<open>Auxiliary notions for the statements\<close>

text \<open>The parts \<^verbatim>\<open>flushBitmaps\<close> runs over: none when the object has no entry.\<close>

definition parts_of :: "MetadataStore \<Rightarrow> string \<Rightarrow> (nat \<times> BitVec) list" where
  "parts_of s hash_hex =
     (case bitmap s hash_hex of None \<Rightarrow> [] | Some parts \<Rightarrow> DAList.impl_of parts)"

text \<open>
  The read buffer of \<^verbatim>\<open>loadBitmap\<close> after \<^verbatim>\<open>pread\<close>:
  \<^verbatim>\<open>std::vector<uint8_t> bytes((fs::file_size(path) + 7) / 8);\<close> filled from the file.
\<close>

definition load_buffer :: "MetadataStore \<Rightarrow> filesystem \<Rightarrow> string \<Rightarrow> nat \<Rightarrow> u8 list" where
  "load_buffer s fs hash_hex part_idx =
     (let p = bitmap_path (cache_root s) hash_hex part_idx
      in snd (sys_pread fs p (replicate ((file_size fs p + 7) div 8) 0)))"

text \<open>
  Example states: a file system without files on which every call succeeds, one that
  holds a single bitmap file, a store that was never initialised, a store with one
  bit vector, a store with two, and an open store with one row.
\<close>

abbreviation fs_ok :: filesystem where
  "fs_ok \<equiv> \<lparr>files = Map.empty, mkdir_fails = (\<lambda>d. False), wr_denied = (\<lambda>p. False),
            wr_room = (\<lambda>p. None), rd_denied = (\<lambda>p. False), rd_error = (\<lambda>p. False)\<rparr>"

abbreviation fs_with :: "u8 list \<Rightarrow> filesystem" where
  "fs_with content \<equiv> fs_ok\<lparr>files := [bitmap_path ''/c'' ''ab'' 0 \<mapsto> content]\<rparr>"

abbreviation store_new :: MetadataStore where
  "store_new \<equiv> \<lparr>db_handle = None, cache_root = ''/c'', bitmap = Map.empty\<rparr>"

abbreviation store_part :: "BitVec \<Rightarrow> MetadataStore" where
  "store_part vec \<equiv>
     \<lparr>db_handle = None, cache_root = ''/c'',
      bitmap = [''ab'' \<mapsto> DAList.update 0 vec DAList.empty]\<rparr>"

abbreviation db_a :: sqlite3 where
  "db_a \<equiv> \<lparr>metadata = [''/a'' \<mapsto> \<lparr>col_local_path = ''/c/old'', col_size = 1,
                                    col_timestamp = 2, col_last_accessed = 3, col_dirty = 0\<rparr>],
            step_fails = False\<rparr>"

abbreviation store_db :: MetadataStore where
  "store_db \<equiv> \<lparr>db_handle = Some db_a, cache_root = ''/c'', bitmap = Map.empty\<rparr>"

abbreviation row_a :: CacheMetadata where
  "row_a \<equiv> \<lparr>path = ''/a'', local_path = ''/c/new'', size_bytes = 5, timestamp = 7,
            last_accessed = 9, dirty = True\<rparr>"

abbreviation store_two :: MetadataStore where
  "store_two \<equiv>
     \<lparr>db_handle = None, cache_root = ''/c'',
      bitmap = [''ab'' \<mapsto> DAList.update 2 (replicate 17 True)
                           (DAList.update 0 [True] DAList.empty)]\<rparr>"

section \<open>Properties of the packed form\<close>

text \<open>Testing a byte against \<^verbatim>\<open>1u << b\<close> reads bit \<open>b\<close> of the byte.\<close>

lemma bit_mask_u8: "(((ucast (w::u8) :: u32) AND 2 ^ b) \<noteq> 0) = (b < 8 \<and> bit w b)"
  by (auto simp add: and_exp_eq_0_iff_not_bit bit_ucast_iff dest: bit_imp_le_length)

lemma bit_or_mask_u8:
  "b < 8 \<Longrightarrow> c < 8 \<Longrightarrow>
   bit (ucast ((ucast (w::u8) :: u32) OR push_bit c 1) :: u8) b = (bit w b \<or> b = c)"
  by (auto simp add: bit_ucast_iff bit_or_iff bit_exp_iff)

lemma pack_step_length: "length (pack_step bits i bytes) = length bytes"
  by (simp add: pack_step_def)

lemma pack_step_bit:
  assumes "j < length bytes" "b < 8"
  shows "bit (pack_step bits i bytes ! j) (b::nat) =
           (bit (bytes ! j) b \<or> (bits ! i \<and> 8 * j + b = i))"
proof (cases "bits ! i")
  case False
  then show ?thesis by (simp add: pack_step_def)
next
  case True
  show ?thesis
  proof (cases "j = i div 8")
    case eq: True
    have "(b = i mod 8) = (8 * j + b = i)"
    proof
      assume "b = i mod 8"
      then show "8 * j + b = i" using eq by simp
    next
      assume h: "8 * j + b = i"
      have "(8 * j + b) mod 8 = b" using assms(2) by simp
      then show "b = i mod 8" unfolding h by simp
    qed
    moreover have "i mod 8 < 8" by simp
    ultimately show ?thesis
      using True eq assms bit_or_mask_u8 [of b "i mod 8" "bytes ! (i div 8)"]
      by (simp add: pack_step_def)
  next
    case ne: False
    have "(8 * j + b) div 8 = j" using assms(2) by simp
    with ne have "8 * j + b \<noteq> i" by auto
    then show ?thesis using True ne assms by (simp add: pack_step_def)
  qed
qed

text \<open>The invariant of the packing loop after \<open>k\<close> rounds.\<close>

lemma pack_fold:
  "length (fold (pack_step bits) [0..<k] (replicate m 0)) = m \<and>
   (\<forall>j<m. \<forall>b<8. bit (fold (pack_step bits) [0..<k] (replicate m 0) ! j) b =
        (8 * j + b < k \<and> bits ! (8 * j + b)))"
proof (induction k)
  case 0
  then show ?case by simp
next
  case (Suc k)
  let ?r = "fold (pack_step bits) [0..<k] (replicate m 0)"
  have len: "length ?r = m" using Suc by simp
  have step: "fold (pack_step bits) [0..<Suc k] (replicate m 0) = pack_step bits k ?r"
    by simp
  show ?case
  proof (intro conjI allI impI)
    show "length (fold (pack_step bits) [0..<Suc k] (replicate m 0)) = m"
      by (simp add: pack_step_length len)
  next
    fix j b :: nat assume jb: "j < m" "b < 8"
    have "bit (pack_step bits k ?r ! j) b = (bit (?r ! j) b \<or> (bits ! k \<and> 8 * j + b = k))"
      using pack_step_bit [of j ?r b bits k] jb len by simp
    also have "\<dots> = ((8 * j + b < k \<and> bits ! (8 * j + b)) \<or> (bits ! k \<and> 8 * j + b = k))"
      using Suc jb by simp
    also have "\<dots> = (8 * j + b < Suc k \<and> bits ! (8 * j + b))"
      by (auto simp: less_Suc_eq)
    finally show "bit (fold (pack_step bits) [0..<Suc k] (replicate m 0) ! j) b =
        (8 * j + b < Suc k \<and> bits ! (8 * j + b))"
      unfolding step .
  qed
qed

lemma length_pack_bits: "length (pack_bits bits) = (length bits + 7) div 8"
  using pack_fold [of bits "length bits" "(length bits + 7) div 8"] by (simp add: pack_bits_def)

lemma bit_pack_bits:
  assumes "i < length bits"
  shows "bit (pack_bits bits ! (i div 8)) (i mod 8) = bits ! i"
proof -
  have j: "i div 8 < (length bits + 7) div 8" using assms by arith
  have b: "i mod 8 < 8" by simp
  have "bit (pack_bits bits ! (i div 8)) (i mod 8) =
          (8 * (i div 8) + i mod 8 < length bits \<and> bits ! (8 * (i div 8) + i mod 8))"
    using conjunct2 [OF pack_fold [of bits "length bits" "(length bits + 7) div 8"],
        rule_format, OF j b]
    by (simp only: pack_bits_def)
  then show ?thesis using assms by simp
qed

text \<open>The unpacking loops: the inner one after \<open>c\<close> rounds, the outer one after \<open>n\<close>.\<close>

lemma unpack_bit_length: "length (unpack_bit bytes i b vec) = length vec"
  by (simp add: unpack_bit_def)

lemma unpack_bit_nth:
  "k < length vec \<Longrightarrow> b < 8 \<Longrightarrow>
   unpack_bit bytes i b vec ! k = (if k = i * 8 + b then bit (bytes ! i) b else vec ! k)"
  by (simp add: unpack_bit_def bit_mask_u8 nth_list_update)

lemma unpack_fold_bits:
  "c \<le> 8 \<Longrightarrow>
   length (fold (unpack_bit bytes i) [0..<c] vec) = length vec \<and>
   (\<forall>k<length vec. fold (unpack_bit bytes i) [0..<c] vec ! k =
      (if i * 8 \<le> k \<and> k < i * 8 + c then bit (bytes ! i) (k - i * 8) else vec ! k))"
proof (induction c)
  case 0
  then show ?case by auto
next
  case (Suc c)
  let ?r = "fold (unpack_bit bytes i) [0..<c] vec"
  from Suc have c8: "c < 8" and len: "length ?r = length vec"
    and ih: "\<And>k. k < length vec \<Longrightarrow> ?r ! k =
      (if i * 8 \<le> k \<and> k < i * 8 + c then bit (bytes ! i) (k - i * 8) else vec ! k)"
    by simp_all
  have step: "fold (unpack_bit bytes i) [0..<Suc c] vec = unpack_bit bytes i c ?r"
    by simp
  show ?case
  proof (intro conjI allI impI)
    show "length (fold (unpack_bit bytes i) [0..<Suc c] vec) = length vec"
      by (simp add: unpack_bit_length len)
  next
    fix k assume k: "k < length vec"
    have "unpack_bit bytes i c ?r ! k = (if k = i * 8 + c then bit (bytes ! i) c else ?r ! k)"
      using unpack_bit_nth [of k ?r c bytes i] k len c8 by simp
    also have "\<dots> =
      (if i * 8 \<le> k \<and> k < i * 8 + Suc c then bit (bytes ! i) (k - i * 8) else vec ! k)"
      using ih [OF k] by (auto simp: less_Suc_eq)
    finally show "fold (unpack_bit bytes i) [0..<Suc c] vec ! k =
      (if i * 8 \<le> k \<and> k < i * 8 + Suc c then bit (bytes ! i) (k - i * 8) else vec ! k)"
      unfolding step .
  qed
qed

lemma unpack_byte_length: "length (unpack_byte bytes i vec) = length vec"
  using unpack_fold_bits [of 8 bytes i vec] by (simp add: unpack_byte_def)

lemma unpack_byte_nth:
  "k < length vec \<Longrightarrow>
   unpack_byte bytes i vec ! k =
     (if i * 8 \<le> k \<and> k < i * 8 + 8 then bit (bytes ! i) (k - i * 8) else vec ! k)"
  using unpack_fold_bits [of 8 bytes i vec] by (simp add: unpack_byte_def)

lemma unpack_fold_bytes:
  "length (fold (unpack_byte bytes) [0..<n] vec) = length vec \<and>
   (\<forall>k<length vec. fold (unpack_byte bytes) [0..<n] vec ! k =
      (if k < n * 8 then bit (bytes ! (k div 8)) (k mod 8) else vec ! k))"
proof (induction n)
  case 0
  then show ?case by simp
next
  case (Suc n)
  let ?r = "fold (unpack_byte bytes) [0..<n] vec"
  from Suc have len: "length ?r = length vec"
    and ih: "\<And>k. k < length vec \<Longrightarrow> ?r ! k =
      (if k < n * 8 then bit (bytes ! (k div 8)) (k mod 8) else vec ! k)"
    by simp_all
  have step: "fold (unpack_byte bytes) [0..<Suc n] vec = unpack_byte bytes n ?r"
    by simp
  show ?case
  proof (intro conjI allI impI)
    show "length (fold (unpack_byte bytes) [0..<Suc n] vec) = length vec"
      by (simp add: unpack_byte_length len)
  next
    fix k assume k: "k < length vec"
    have in_byte: "k div 8 = n \<and> k mod 8 = k - n * 8" if "n * 8 \<le> k" "k < n * 8 + 8"
    proof -
      define b where "b = k - n * 8"
      have b: "b < 8" and kb: "k = 8 * n + b" using that by (simp_all add: b_def)
      have "(8 * n + b) div 8 = n" and "(8 * n + b) mod 8 = b" using b by simp_all
      then show ?thesis unfolding kb [symmetric] by (simp add: b_def)
    qed
    have "unpack_byte bytes n ?r ! k =
      (if n * 8 \<le> k \<and> k < n * 8 + 8 then bit (bytes ! n) (k - n * 8) else ?r ! k)"
      using unpack_byte_nth [of k ?r bytes n] k len by simp
    also have "\<dots> = (if k < Suc n * 8 then bit (bytes ! (k div 8)) (k mod 8) else vec ! k)"
      using ih [OF k] in_byte by auto
    finally show "fold (unpack_byte bytes) [0..<Suc n] vec ! k =
      (if k < Suc n * 8 then bit (bytes ! (k div 8)) (k mod 8) else vec ! k)"
      unfolding step .
  qed
qed

lemma length_unpack_all: "length (unpack_all bytes vec) = length vec"
  using unpack_fold_bytes [of bytes "length bytes" vec] by (simp add: unpack_all_def)

lemma nth_unpack_all:
  "k < length vec \<Longrightarrow> k < length bytes * 8 \<Longrightarrow>
   unpack_all bytes vec ! k = bit (bytes ! (k div 8)) (k mod 8)"
  using unpack_fold_bytes [of bytes "length bytes" vec] by (simp add: unpack_all_def)

lemma length_resize: "length (resize n vec) = n"
  by (simp add: resize_def)


section \<open>Properties of the path layout\<close>

text \<open>Different parts of an object have different bitmap files.\<close>

lemma digit_value: "d < 10 \<Longrightarrow> (of_char (''0123456789'' ! d) :: nat) - 48 = d"
proof -
  assume "d < 10"
  then have "d \<in> {0, 1, 2, 3, 4, 5, 6, 7, 8, 9}" by auto
  then show ?thesis by auto
qed

lemma dec_value_snoc: "dec_value (ds @ [c]) = 10 * dec_value ds + (of_char c - 48)"
  by (simp add: dec_value_def)

lemma dec_value_decimal: "dec_value (decimal n) = n"
proof (induction n rule: decimal.induct)
  case (1 n)
  show ?case
  proof (cases "n < 10")
    case True
    then show ?thesis by (subst decimal.simps) (simp add: dec_value_def digit_value)
  next
    case False
    then have "dec_value (decimal n) =
        10 * dec_value (decimal (n div 10)) + (of_char (''0123456789'' ! (n mod 10)) - 48)"
      by (subst decimal.simps) (simp only: if_False dec_value_snoc)
    also have "\<dots> = 10 * (n div 10) + n mod 10"
      using 1 False by (simp add: digit_value)
    finally show ?thesis by simp
  qed
qed

lemma dec_value_zeros: "dec_value (replicate k CHR ''0'' @ ds) = dec_value ds"
proof -
  have "foldl (\<lambda>a c. 10 * a + (of_char c - 48)) 0 (replicate k CHR ''0'') = (0::nat)"
    by (induction k) simp_all
  then show ?thesis by (simp add: dec_value_def)
qed

lemma dec_value_pad8: "dec_value (pad8 (decimal n)) = n"
  by (simp add: pad8_def dec_value_zeros dec_value_decimal)

lemma bitmap_path_inj:
  "bitmap_path root hh p = bitmap_path root hh q \<Longrightarrow> p = q"
proof -
  assume "bitmap_path root hh p = bitmap_path root hh q"
  then have "pad8 (decimal p) = pad8 (decimal q)" by (simp add: bitmap_path_def)
  then have "dec_value (pad8 (decimal p)) = dec_value (pad8 (decimal q))" by (rule arg_cong)
  then show ?thesis by (simp only: dec_value_pad8)
qed

section \<open>Properties of the bitmap operations\<close>

text \<open>A write that reports the full length has stored the data; a write touches one file.\<close>

lemma sys_write_complete:
  "sys_write fs p data = (n, fs') \<Longrightarrow> n = int (length data) \<Longrightarrow> files fs' p = Some data"
  by (auto simp: sys_write_def split: option.splits if_splits)

lemma sys_write_frame:
  "sys_write fs p data = (n, fs') \<Longrightarrow>
   mkdir_fails fs' = mkdir_fails fs \<and> wr_denied fs' = wr_denied fs \<and> wr_room fs' = wr_room fs \<and>
   (\<forall>x. x \<noteq> p \<longrightarrow> files fs' x = files fs x)"
  by (auto simp: sys_write_def split: option.splits if_splits)

lemma sys_pread_length: "length (snd (sys_pread fs p buf)) = length buf"
  by (simp add: sys_pread_def Let_def)

text \<open>
  \<^verbatim>\<open>persistBitmap\<close>: how it ends, what it leaves behind, and that both depend on the
  file system only through what it holds for the path of the part.
\<close>

lemma persistBitmap_store:
  "persistBitmap s fs hash_hex part_idx bits = (r, s', fs') \<Longrightarrow> s' = s"
  by (auto simp: persistBitmap_def Let_def split: if_splits option.splits prod.splits)

lemma persistBitmap_outcome:
  "fst (persistBitmap s fs hash_hex part_idx bits) =
     (if bits = [] then Returns True
      else if mkdir_fails fs (parent_path (bitmap_path (cache_root s) hash_hex part_idx))
      then Throws
      else Returns
        (\<not> wr_denied fs (bitmap_path (cache_root s) hash_hex part_idx) \<and>
         (case wr_room fs (bitmap_path (cache_root s) hash_hex part_idx) of
            None \<Rightarrow> True
          | Some k \<Rightarrow> length (pack_bits bits) \<le> k)))"
  by (auto simp: persistBitmap_def create_directories_def open_trunc_def sys_write_def Let_def
      split: if_splits option.splits prod.splits)

lemma persistBitmap_written:
  assumes "persistBitmap s fs hash_hex part_idx bits = (Returns True, s', fs')" and "bits \<noteq> []"
  shows "files fs' (bitmap_path (cache_root s) hash_hex part_idx) = Some (pack_bits bits)"
proof -
  let ?p = "bitmap_path (cache_root s) hash_hex part_idx"
  from assms have c: "create_directories fs (parent_path ?p) = Some fs"
    by (auto simp: persistBitmap_def create_directories_def Let_def split: if_splits)
  obtain fs1 where o: "open_trunc fs ?p = Some fs1"
    using assms c
    by (cases "open_trunc fs ?p") (auto simp: persistBitmap_def Let_def)
  obtain n fs2 where w: "sys_write fs1 ?p (pack_bits bits) = (n, fs2)"
    by (cases "sys_write fs1 ?p (pack_bits bits)") auto
  from assms c o w have "n = int (length (pack_bits bits))" and "fs' = fs2"
    by (auto simp: persistBitmap_def Let_def)
  with w show ?thesis by (auto dest: sys_write_complete)
qed

lemma persistBitmap_frame:
  "persistBitmap s fs hash_hex part_idx bits = (r, s', fs') \<Longrightarrow>
   mkdir_fails fs' = mkdir_fails fs \<and> wr_denied fs' = wr_denied fs \<and> wr_room fs' = wr_room fs \<and>
   (\<forall>x. x \<noteq> bitmap_path (cache_root s) hash_hex part_idx \<longrightarrow> files fs' x = files fs x)"
  by (auto simp: persistBitmap_def create_directories_def open_trunc_def Let_def
      split: if_splits option.splits prod.splits dest!: sys_write_frame)

lemma persistBitmap_cong:
  assumes "mkdir_fails fs1 = mkdir_fails fs2" "wr_denied fs1 = wr_denied fs2"
    "wr_room fs1 = wr_room fs2"
    "files fs1 (bitmap_path (cache_root s) hash_hex part_idx) =
     files fs2 (bitmap_path (cache_root s) hash_hex part_idx)"
  shows "fst (persistBitmap s fs1 hash_hex part_idx bits) =
         fst (persistBitmap s fs2 hash_hex part_idx bits) \<and>
         files (snd (snd (persistBitmap s fs1 hash_hex part_idx bits)))
           (bitmap_path (cache_root s) hash_hex part_idx) =
         files (snd (snd (persistBitmap s fs2 hash_hex part_idx bits)))
           (bitmap_path (cache_root s) hash_hex part_idx)"
  using assms
  by (auto simp: persistBitmap_def create_directories_def open_trunc_def sys_write_def Let_def
      split: if_splits option.splits prod.splits)

text \<open>
  The loop of \<^verbatim>\<open>flushBitmaps\<close>: the store it returns, the files it leaves alone, how it
  ends, and the file it leaves for each part.
\<close>

lemma flush_parts_store:
  "flush_parts hash_hex parts (ok, s, fs) = (r, s', fs') \<Longrightarrow> s' = s"
proof (induction parts arbitrary: ok fs)
  case Nil
  then show ?case by simp
next
  case (Cons a parts)
  obtain part_idx bits where a: "a = (part_idx, bits)" by (cases a)
  obtain r1 s1 fs1 where p: "persistBitmap s fs hash_hex part_idx bits = (r1, s1, fs1)"
    by (cases "persistBitmap s fs hash_hex part_idx bits")
  then have s1: "s1 = s" by (rule persistBitmap_store)
  show ?case
  proof (cases r1)
    case Throws
    with Cons.prems a p s1 show ?thesis by simp
  next
    case (Returns b)
    with Cons.prems a p s1 have "flush_parts hash_hex parts (ok \<and> b, s, fs1) = (r, s', fs')"
      by simp
    then show ?thesis by (rule Cons.IH)
  qed
qed

lemma flush_parts_frame:
  "flush_parts hash_hex parts (ok, s, fs) = (r, s', fs') \<Longrightarrow>
   mkdir_fails fs' = mkdir_fails fs \<and> wr_denied fs' = wr_denied fs \<and> wr_room fs' = wr_room fs \<and>
   (\<forall>x. x \<notin> bitmap_path (cache_root s) hash_hex ` fst ` set parts \<longrightarrow> files fs' x = files fs x)"
proof (induction parts arbitrary: ok fs)
  case Nil
  then show ?case by simp
next
  case (Cons a parts)
  obtain part_idx bits where a: "a = (part_idx, bits)" by (cases a)
  obtain r1 s1 fs1 where p: "persistBitmap s fs hash_hex part_idx bits = (r1, s1, fs1)"
    by (cases "persistBitmap s fs hash_hex part_idx bits")
  have s1: "s1 = s" using p by (rule persistBitmap_store)
  note f1 = persistBitmap_frame [OF p]
  show ?case
  proof (cases r1)
    case Throws
    with Cons.prems a p have "fs' = fs1" by simp
    with f1 a show ?thesis by auto
  next
    case (Returns b)
    with Cons.prems a p s1 have "flush_parts hash_hex parts (ok \<and> b, s, fs1) = (r, s', fs')"
      by simp
    from Cons.IH [OF this] f1 a show ?thesis by auto
  qed
qed

lemma flush_parts_outcome:
  "fst (flush_parts hash_hex parts (ok, s, fs)) =
     (if \<exists>(part_idx, bits) \<in> set parts. fst (persistBitmap s fs hash_hex part_idx bits) = Throws
      then Throws
      else Returns (ok \<and> (\<forall>(part_idx, bits) \<in> set parts.
                fst (persistBitmap s fs hash_hex part_idx bits) = Returns True)))"
proof (induction parts arbitrary: ok fs)
  case Nil
  then show ?case by simp
next
  case (Cons a parts)
  obtain part_idx bits where a: "a = (part_idx, bits)" by (cases a)
  obtain r1 s1 fs1 where p: "persistBitmap s fs hash_hex part_idx bits = (r1, s1, fs1)"
    by (cases "persistBitmap s fs hash_hex part_idx bits")
  have s1: "s1 = s" using p by (rule persistBitmap_store)
  show ?case
  proof (cases r1)
    case Throws
    with a p show ?thesis by auto
  next
    case (Returns b)
    have same: "fst (persistBitmap s fs1 hash_hex q v) = fst (persistBitmap s fs hash_hex q v)"
      for q v
      unfolding persistBitmap_def using persistBitmap_frame [OF p]
      by (auto simp: create_directories_def open_trunc_def sys_write_def Let_def
          split: if_splits option.splits prod.splits)
    have "fst (flush_parts hash_hex (a # parts) (ok, s, fs)) =
            fst (flush_parts hash_hex parts (ok \<and> b, s, fs1))"
      using a p s1 Returns by simp
    also note Cons.IH
    finally show ?thesis using a p Returns by (auto simp: same)
  qed
qed

lemma flush_parts_files:
  assumes "flush_parts hash_hex parts (ok, s, fs) = (Returns ok', s', fs')"
    and "distinct (map fst parts)" and "(q, v) \<in> set parts"
  shows "files fs' (bitmap_path (cache_root s) hash_hex q) =
         files (snd (snd (persistBitmap s fs hash_hex q v))) (bitmap_path (cache_root s) hash_hex q)"
  using assms
proof (induction parts arbitrary: ok fs)
  case Nil
  then show ?case by simp
next
  case (Cons a parts)
  let ?P = "bitmap_path (cache_root s) hash_hex"
  obtain part_idx bits where a: "a = (part_idx, bits)" by (cases a)
  obtain r1 s1 fs1 where p: "persistBitmap s fs hash_hex part_idx bits = (r1, s1, fs1)"
    by (cases "persistBitmap s fs hash_hex part_idx bits")
  have s1: "s1 = s" using p by (rule persistBitmap_store)
  note f1 = persistBitmap_frame [OF p]
  from Cons.prems(1) a p obtain b where r1: "r1 = Returns b"
    by (cases r1) auto
  with Cons.prems(1) a p s1
  have rest: "flush_parts hash_hex parts (ok \<and> b, s, fs1) = (Returns ok', s', fs')"
    by simp
  from Cons.prems(2) a have d: "distinct (map fst parts)" and notin: "part_idx \<notin> fst ` set parts"
    by auto
  show ?case
  proof (cases "(q, v) = (part_idx, bits)")
    case True
    have "?P part_idx \<notin> ?P ` fst ` set parts"
      using notin by (auto dest: bitmap_path_inj)
    with flush_parts_frame [OF rest] have "files fs' (?P part_idx) = files fs1 (?P part_idx)"
      by blast
    with True p show ?thesis by simp
  next
    case False
    with Cons.prems(3) a have qin: "(q, v) \<in> set parts" by auto
    with notin have "q \<noteq> part_idx" by force
    then have ne: "?P q \<noteq> ?P part_idx" by (auto dest: bitmap_path_inj)
    have "files fs' (?P q) = files (snd (snd (persistBitmap s fs1 hash_hex q v))) (?P q)"
      using rest d qin by (rule Cons.IH)
    also have "\<dots> = files (snd (snd (persistBitmap s fs hash_hex q v))) (?P q)"
      using persistBitmap_cong [of fs1 fs s hash_hex q v] f1 ne by simp
    finally show ?thesis .
  qed
qed

lemma flush_parts_empty:
  "list_all (\<lambda>(part_idx, bits). bits = []) parts \<Longrightarrow>
   flush_parts hash_hex parts (ok, s, fs) = (Returns ok, s, fs)"
  by (induction parts) (auto simp: persistBitmap_def)

lemma flush_parts_skips_empty:
  "flush_parts hash_hex (xs @ (part_idx, []) # ys) (ok, s, fs) =
   flush_parts hash_hex (xs @ ys) (ok, s, fs)"
proof (induction xs arbitrary: ok s fs)
  case Nil
  then show ?case by (simp add: persistBitmap_def)
next
  case (Cons a xs)
  obtain q b where a: "a = (q, b)" by (cases a)
  obtain r s1 fs1 where p: "persistBitmap s fs hash_hex q b = (r, s1, fs1)"
    by (cases "persistBitmap s fs hash_hex q b")
  show ?case
  proof (cases r)
    case Throws
    then show ?thesis by (simp add: a p)
  next
    case (Returns v)
    then show ?thesis using Cons.IH [of "ok \<and> v" s1 fs1] by (simp add: a p)
  qed
qed

lemma flushBitmaps_store: "flushBitmaps s fs hash_hex = (r, s', fs') \<Longrightarrow> s' = s"
  by (auto simp: flushBitmaps_def split: option.splits dest: flush_parts_store)

text \<open>The in-memory map: assignment through \<^verbatim>\<open>bitmap_[hash_hex][part_idx]\<close>, and its parts.\<close>

lemma bits_of_vec_store:
  "bits_of (vec_store s hash_hex part_idx vec) h p =
     (if h = hash_hex \<and> p = part_idx then Some vec else bits_of s h p)"
  by (auto simp: bits_of_def vec_store_def DAList.lookup_update split: option.splits)

lemma bits_of_parts:
  "bits_of s hash_hex part_idx = Some bits \<Longrightarrow> (part_idx, bits) \<in> set (parts_of s hash_hex)"
  by (auto simp: bits_of_def parts_of_def DAList.lookup.rep_eq split: option.splits
      dest: map_of_SomeD)

lemma distinct_parts_of: "distinct (map fst (parts_of s hash_hex))"
  by (simp add: parts_of_def split: option.splits)

text \<open>
  \<^verbatim>\<open>loadBitmap\<close> on an existing file that it manages to read: the vector of the part
  becomes the expansion of the read buffer. The call changes neither the file system
  nor the cache root.
\<close>

lemma loadBitmap_frame:
  "loadBitmap s fs hash_hex part_idx = (r, s', fs') \<Longrightarrow> fs' = fs \<and> cache_root s' = cache_root s"
  by (auto simp: loadBitmap_def vec_store_def Let_def split: if_splits prod.splits)

lemma loadBitmap_decodes:
  assumes "fs_exists fs (bitmap_path (cache_root s) hash_hex part_idx)"
    and "loadBitmap s fs hash_hex part_idx = (True, s', fs')"
  shows "\<exists>vec. bits_of s' hash_hex part_idx = Some vec \<and>
           length (load_buffer s fs hash_hex part_idx) =
             (file_size fs (bitmap_path (cache_root s) hash_hex part_idx) + 7) div 8 \<and>
           length vec = 8 * length (load_buffer s fs hash_hex part_idx) \<and>
           (\<forall>k<length vec.
              vec ! k =
                (((ucast (load_buffer s fs hash_hex part_idx ! (k div 8)) :: u32)
                    AND push_bit (k mod 8) 1) \<noteq> 0))"
proof -
  let ?p = "bitmap_path (cache_root s) hash_hex part_idx"
  let ?buf0 = "replicate ((file_size fs ?p + 7) div 8) (0 :: u8)"
  obtain n buf where r: "sys_pread fs ?p ?buf0 = (n, buf)"
    by (cases "sys_pread fs ?p ?buf0")
  then have buf: "load_buffer s fs hash_hex part_idx = buf"
    by (simp add: load_buffer_def)
  have lbuf: "length buf = (file_size fs ?p + 7) div 8"
    using sys_pread_length [of fs ?p ?buf0] r by simp
  let ?vec = "unpack_all buf (resize (length buf * 8) (vec_at s hash_hex part_idx))"
  from assms r have s': "s' = vec_store s hash_hex part_idx ?vec"
    by (auto simp: loadBitmap_def Let_def split: if_splits)
  have len: "length ?vec = 8 * length buf"
    by (simp add: length_unpack_all length_resize)
  have nth: "?vec ! k = (((ucast (buf ! (k div 8)) :: u32) AND push_bit (k mod 8) 1) \<noteq> 0)"
    if "k < length ?vec" for k
  proof -
    from that len have k: "k < length buf * 8" by simp
    then have "?vec ! k = bit (buf ! (k div 8)) (k mod 8)"
      by (simp add: nth_unpack_all length_resize)
    then show ?thesis by (simp add: bit_mask_u8)
  qed
  have "bits_of s' hash_hex part_idx = Some ?vec"
    by (simp add: s' bits_of_vec_store)
  with lbuf len nth show ?thesis unfolding buf by blast
qed

text \<open>
  Reading back a file that holds the packed form of \<open>n\<close> bits. The file has
  \<open>(n + 7) div 8\<close> bytes; the read buffer is sized by applying the same rounding to
  that number of bytes, so the vector that comes back has
  \<open>8 * (((n + 7) div 8 + 7) div 8)\<close> entries. They agree with the bits written as far as
  both go; from \<open>n = 9\<close> on the vector that comes back is the shorter one.
\<close>

lemma load_packed:
  assumes content: "files fs (bitmap_path (cache_root s) hash_hex part_idx) = Some (pack_bits bits)"
    and l: "loadBitmap s fs hash_hex part_idx = (True, s', fs')"
  shows "\<exists>vec. bits_of s' hash_hex part_idx = Some vec \<and>
           length vec = 8 * (((length bits + 7) div 8 + 7) div 8) \<and>
           (\<forall>k. k < length vec \<and> k < length bits \<longrightarrow> vec ! k = bits ! k)"
proof -
  let ?p = "bitmap_path (cache_root s) hash_hex part_idx"
  let ?m = "(length bits + 7) div 8"
  from content have ex: "fs_exists fs ?p"
    by (simp add: fs_exists_def)
  have size: "file_size fs ?p = ?m" using content by (simp add: file_size_def length_pack_bits)
  from loadBitmap_decodes [OF ex l] obtain vec where
    v: "bits_of s' hash_hex part_idx = Some vec"
    and lb: "length (load_buffer s fs hash_hex part_idx) = (?m + 7) div 8"
    and lv: "length vec = 8 * length (load_buffer s fs hash_hex part_idx)"
    and nth: "\<And>k. k < length vec \<Longrightarrow>
        vec ! k = (((ucast (load_buffer s fs hash_hex part_idx ! (k div 8)) :: u32)
                    AND push_bit (k mod 8) 1) \<noteq> 0)"
    by (auto simp: size)
  have rd: "\<not> rd_error fs ?p"
    using l ex by (auto simp: loadBitmap_def sys_pread_def Let_def split: if_splits)
  have le: "(?m + 7) div 8 \<le> ?m" by arith
  have buf: "load_buffer s fs hash_hex part_idx = take ((?m + 7) div 8) (pack_bits bits)"
    using rd content le
    by (simp add: load_buffer_def sys_pread_def size Let_def length_pack_bits min_def)
  have "vec ! k = bits ! k" if k: "k < length vec" "k < length bits" for k
  proof -
    from k(1) lv lb have "k < 8 * ((?m + 7) div 8)" by simp
    then have kd: "k div 8 < (?m + 7) div 8" by arith
    have "vec ! k = bit (take ((?m + 7) div 8) (pack_bits bits) ! (k div 8)) (k mod 8)"
      using nth [OF k(1)] by (simp add: buf bit_mask_u8)
    also have "\<dots> = bit (pack_bits bits ! (k div 8)) (k mod 8)" using kd by simp
    also have "\<dots> = bits ! k" using k(2) by (rule bit_pack_bits)
    finally show ?thesis .
  qed
  with v lv lb show ?thesis by auto
qed

lemma flushBitmaps_written:
  assumes f: "flushBitmaps s fs hash_hex = (Returns True, s1, fs1)"
    and b: "bits_of s hash_hex part_idx = Some bits" and ne: "bits \<noteq> []"
  shows "files fs1 (bitmap_path (cache_root s) hash_hex part_idx) = Some (pack_bits bits)"
proof -
  let ?parts = "parts_of s hash_hex"
  from b have mem: "(part_idx, bits) \<in> set ?parts" by (rule bits_of_parts)
  from b obtain al where al: "bitmap s hash_hex = Some al"
    by (auto simp: bits_of_def split: option.splits)
  with f have fp: "flush_parts hash_hex ?parts (True, s, fs) = (Returns True, s1, fs1)"
    by (simp add: flushBitmaps_def parts_of_def)
  have "fst (flush_parts hash_hex ?parts (True, s, fs)) = Returns True"
    using fp by simp
  then have "fst (persistBitmap s fs hash_hex part_idx bits) = Returns True"
    using mem unfolding flush_parts_outcome by (auto split: if_splits)
  then have "persistBitmap s fs hash_hex part_idx bits =
      (Returns True, fst (snd (persistBitmap s fs hash_hex part_idx bits)),
       snd (snd (persistBitmap s fs hash_hex part_idx bits)))"
    by (simp add: prod_eq_iff)
  from persistBitmap_written [OF this ne]
  have "files (snd (snd (persistBitmap s fs hash_hex part_idx bits)))
          (bitmap_path (cache_root s) hash_hex part_idx) = Some (pack_bits bits)" .
  with flush_parts_files [OF fp distinct_parts_of mem] show ?thesis by simp
qed

section \<open>Properties of the table operations and of block indices\<close>

lemma c_str_id: "CHR 0x00 \<notin> set p \<Longrightarrow> c_str p = p"
  by (auto simp: c_str_def)

lemma run_stmt_ok:
  "run_stmt s st = (True, s') \<Longrightarrow>
   \<exists>db r db'. db_handle s = Some db \<and> \<not> step_fails db \<and>
     sqlite3_step db st = (SQLITE_DONE, r, db') \<and> s' = s\<lparr>db_handle := Some db'\<rparr>"
  by (auto simp: run_stmt_def sqlite3_prepare_v2_def sqlite3_step_def Let_def
      split: option.splits if_splits prod.splits)

lemma get_open:
  "db_handle s = Some db \<Longrightarrow> \<not> step_fails db \<Longrightarrow>
   get s p =
     (case metadata db (c_str p) of
        None \<Rightarrow> None
      | Some row \<Rightarrow>
          Some \<lparr>path = p, local_path = c_str (col_local_path row), size_bytes = col_size row,
                timestamp = col_timestamp row, last_accessed = col_last_accessed row,
                dirty = ((ucast (col_dirty row) :: u32) \<noteq> 0)\<rparr>)"
  by (simp add: get_def sqlite3_prepare_v2_def sqlite3_step_def split: option.splits)



section \<open>Evaluation on small inputs\<close>

lemma upt_0_9: "[0..<9] = [0, 1, 2, 3, 4, 5, 6, 7, 8 :: nat]"
  by (simp add: upt_rec)

lemma upt_0_8: "[0..<8] = [0, 1, 2, 3, 4, 5, 6, 7 :: nat]"
  by (simp add: upt_rec)

lemma replicate_2_u8: "replicate 2 (0 :: u8) = [0, 0]"
  by (simp add: numeral_2_eq_2)

lemma pack_block_8:
  "pack_bits [False, False, False, False, False, False, False, False, True] = [0, 1]"
  by (simp add: pack_bits_def pack_step_def upt_0_9 replicate_2_u8)

lemma pack_block_1: "pack_bits [False, True] = [2]"
  by (simp add: pack_bits_def pack_step_def)

lemma pack_block_0: "pack_bits [True] = [1]"
  by (simp add: pack_bits_def pack_step_def)

lemma unpack_byte_0:
  "unpack_all [0] [False, False, False, False, False, False, False, False] =
     [False, False, False, False, False, False, False, False]"
  by (simp add: unpack_all_def unpack_byte_def unpack_bit_def upt_0_8)

lemma unpack_byte_5:
  "unpack_all [5] [False, False, False, False, False, False, False, False] =
     [True, False, True, False, False, False, False, False]"
  by (simp add: unpack_all_def unpack_byte_def unpack_bit_def upt_0_8)

lemma flush_block_8:
  "flushBitmaps
     (store_part [False, False, False, False, False, False, False, False, True]) fs_ok ''ab'' =
   (Returns True, store_part [False, False, False, False, False, False, False, False, True],
    fs_with [0, 1])"
  by (simp add: flushBitmaps_def DAList.update.rep_eq DAList.empty.rep_eq persistBitmap_def
      create_directories_def open_trunc_def sys_write_def pack_block_8)

lemma load_block_8:
  "loadBitmap
     (store_part [False, False, False, False, False, False, False, False, True])
     (fs_with [0, 1]) ''ab'' 0 =
   (True, store_part [False, False, False, False, False, False, False, False], fs_with [0, 1])"
  by (simp add: loadBitmap_def fs_exists_def open_rdonly_def file_size_def sys_pread_def
      vec_at_def bits_of_def vec_store_def resize_def unpack_byte_0 Let_def)

section \<open>The claims\<close>

text \<open>
  C1: for a hash and a part whose bit vector in memory is not empty, \<^verbatim>\<open>flushBitmaps\<close>
  followed by \<^verbatim>\<open>loadBitmap\<close> of the part reconstructs a vector that equals the one
  persisted, bit for bit, on their common prefix: the indices both vectors have.

  Both calls succeed. The part is loaded into the store \<open>t\<close>: the store the flush
  returned, or that store after other parts were loaded, which changes neither the
  file system nor the cache root (\<open>loadBitmap_frame\<close>). The theorem also gives the
  length of the vector read back, \<open>8 * (((n + 7) div 8 + 7) div 8)\<close> for \<open>n\<close> persisted
  bits: from \<open>n = 9\<close> on the common prefix is shorter than the vector persisted, and
  the blocks beyond it are not read back.
\<close>

theorem flush_then_load_common_prefix:
  assumes "flushBitmaps s fs hash_hex = (Returns True, s1, fs1)"
    and "bits_of s hash_hex part_idx = Some bits" and "bits \<noteq> []"
    and "cache_root t = cache_root s"
    and "loadBitmap t fs1 hash_hex part_idx = (True, t', fs2)"
  shows "\<exists>vec. bits_of t' hash_hex part_idx = Some vec \<and>
           length vec = 8 * (((length bits + 7) div 8 + 7) div 8) \<and>
           (\<forall>k. k < length vec \<and> k < length bits \<longrightarrow> vec ! k = bits ! k)"
proof -
  have "files fs1 (bitmap_path (cache_root t) hash_hex part_idx) = Some (pack_bits bits)"
    using flushBitmaps_written [OF assms(1-3)] assms(4) by simp
  then show ?thesis using assms(5) by (rule load_packed)
qed

theorem flush_then_load_common_prefix_witness:
  "flushBitmaps
     (store_part [False, False, False, False, False, False, False, False, True]) fs_ok ''ab'' =
   (Returns True, store_part [False, False, False, False, False, False, False, False, True],
    fs_with [0, 1]) \<and>
   bits_of (store_part [False, False, False, False, False, False, False, False, True]) ''ab'' 0 =
     Some [False, False, False, False, False, False, False, False, True] \<and>
   loadBitmap
     (store_part [False, False, False, False, False, False, False, False, True])
     (fs_with [0, 1]) ''ab'' 0 =
   (True, store_part [False, False, False, False, False, False, False, False], fs_with [0, 1]) \<and>
   (\<exists>vec. bits_of (store_part [False, False, False, False, False, False, False, False])
             ''ab'' 0 = Some vec \<and>
      length vec = 8 \<and>
      vec ! 0 = False \<and> vec ! 7 = False)"
proof -
  let ?bits = "[False, False, False, False, False, False, False, False, True]"
  have b: "bits_of (store_part ?bits) ''ab'' 0 = Some ?bits"
    by (simp add: bits_of_def)
  have ne: "?bits \<noteq> []" by simp
  have c: "cache_root (store_part ?bits) = cache_root (store_part ?bits)" by simp
  from flush_then_load_common_prefix [OF flush_block_8 b ne c load_block_8]
  obtain vec where v: "bits_of (store_part [False, False, False, False, False, False, False, False])
             ''ab'' 0 = Some vec" and l: "length vec = 8"
    and p: "\<forall>k. k < length vec \<and> k < length ?bits \<longrightarrow> vec ! k = ?bits ! k"
    by auto
  from p l have "vec ! 0 = False" "vec ! 7 = False" by auto
  with v l flush_block_8 b load_block_8 show ?thesis by blast
qed

text \<open>
  C2: when a bitmap of \<open>n\<close> blocks is persisted, the byte array on disk has length
  \<open>ceil(n/8)\<close>, and bit \<open>i\<close> of the vector is stored in byte \<open>i div 8\<close> at position
  \<open>i mod 8\<close>: \<^verbatim>\<open>byte[i/8] & (1 << (i%8))\<close> is non-zero iff bit \<open>i\<close> is set. A bitmap is
  persisted when \<^verbatim>\<open>persistBitmap\<close> writes it, that is, when the vector is not empty and
  the call returns true.
\<close>

theorem persistBitmap_layout:
  assumes "persistBitmap s fs hash_hex part_idx bits = (Returns True, s', fs')" and "bits \<noteq> []"
  shows "\<exists>bytes. files fs' (bitmap_path (cache_root s) hash_hex part_idx) = Some bytes \<and>
           length bytes = (length bits + 7) div 8 \<and>
           (\<forall>i<length bits.
              (((ucast (bytes ! (i div 8)) :: u32) AND push_bit (i mod 8) 1) \<noteq> 0) = bits ! i)"
proof -
  have "\<forall>i<length bits.
          (((ucast (pack_bits bits ! (i div 8)) :: u32) AND push_bit (i mod 8) 1) \<noteq> 0) = bits ! i"
    by (simp add: bit_mask_u8 bit_pack_bits)
  with persistBitmap_written [OF assms] length_pack_bits [of bits] show ?thesis by blast
qed

theorem persistBitmap_layout_witness:
  "persistBitmap store_new fs_ok ''ab'' 0 [False, True] =
     (Returns True, store_new, fs_with [2]) \<and>
   (\<exists>bytes. files (fs_with [2]) (bitmap_path ''/c'' ''ab'' 0) = Some bytes \<and>
            length bytes = 1 \<and>
            ((ucast (bytes ! 0) :: u32) AND 1) = 0 \<and>
            ((ucast (bytes ! 0) :: u32) AND 2) \<noteq> 0)"
proof -
  have h: "persistBitmap store_new fs_ok ''ab'' 0 [False, True] =
      (Returns True, store_new, fs_with [2])"
    by (simp add: persistBitmap_def create_directories_def open_trunc_def sys_write_def
        pack_block_1)
  from persistBitmap_layout [OF h] obtain bytes where
    b: "files (fs_with [2]) (bitmap_path ''/c'' ''ab'' 0) = Some bytes"
       "length bytes = 1"
       "\<forall>i<2. (((ucast (bytes ! (i div 8)) :: u32) AND push_bit (i mod 8) 1) \<noteq> 0) =
                [False, True] ! i"
    by auto
  from b(3) have "((ucast (bytes ! 0) :: u32) AND 1) = 0" by (auto dest: spec [of _ 0])
  moreover from b(3) have "((ucast (bytes ! 0) :: u32) AND 2) \<noteq> 0" by (auto dest: spec [of _ 1])
  ultimately show ?thesis using h b(1,2) by blast
qed

text \<open>
  C3: when persisting fails, which \<^verbatim>\<open>flushBitmaps\<close> reports by returning false, the
  bitmaps in memory are as they were before the call: no bit is cleared or changed.
\<close>

theorem flushBitmaps_keeps_bitmap:
  assumes "flushBitmaps s fs hash_hex = (Returns False, s', fs')"
  shows "bitmap s' = bitmap s"
proof -
  from assms have "s' = s" by (rule flushBitmaps_store)
  then show ?thesis by simp
qed

theorem flushBitmaps_keeps_bitmap_witness:
  "flushBitmaps (store_part [True]) (fs_ok\<lparr>wr_denied := (\<lambda>p. True)\<rparr>) ''ab'' =
     (Returns False, store_part [True], fs_ok\<lparr>wr_denied := (\<lambda>p. True)\<rparr>) \<and>
   bits_of (store_part [True]) ''ab'' 0 = Some [True]"
proof -
  have h: "flushBitmaps (store_part [True]) (fs_ok\<lparr>wr_denied := (\<lambda>p. True)\<rparr>) ''ab'' =
     (Returns False, store_part [True], fs_ok\<lparr>wr_denied := (\<lambda>p. True)\<rparr>)"
    by (simp add: flushBitmaps_def DAList.update.rep_eq DAList.empty.rep_eq persistBitmap_def
        create_directories_def open_trunc_def)
  from flushBitmaps_keeps_bitmap [OF h] h show ?thesis by (simp add: bits_of_def)
qed




text \<open>
  C5, as amended: \<^verbatim>\<open>flushBitmaps\<close> is left by the exception of
  \<^verbatim>\<open>fs::create_directories\<close>, returning nothing, exactly when creating the directory
  fails for some part of the object. When it returns, it returns true if and only if
  persisting succeeded for every part of the object that has a bit vector in memory,
  and false otherwise. What the call leaves on disk is what persisting each part
  leaves: the file of every part is as \<^verbatim>\<open>persistBitmap\<close> of that part leaves it, and no
  other file is touched. Persisting a part is judged in the file system the call
  starts from, which is sound because a part's outcome and file depend only on what
  the file system holds for that part's own path (\<open>persistBitmap_cong\<close>) and the parts
  have different paths (\<open>bitmap_path_inj\<close>).
\<close>

theorem flushBitmaps_outcome:
  "((fst (flushBitmaps s fs hash_hex) = Throws) =
      (\<exists>(part_idx, bits) \<in> set (parts_of s hash_hex).
         fst (persistBitmap s fs hash_hex part_idx bits) = Throws)) \<and>
   (\<forall>ok s' fs'. flushBitmaps s fs hash_hex = (Returns ok, s', fs') \<longrightarrow>
      ok = (\<forall>(part_idx, bits) \<in> set (parts_of s hash_hex).
              fst (persistBitmap s fs hash_hex part_idx bits) = Returns True) \<and>
      (\<forall>(part_idx, bits) \<in> set (parts_of s hash_hex).
         files fs' (bitmap_path (cache_root s) hash_hex part_idx) =
         files (snd (snd (persistBitmap s fs hash_hex part_idx bits)))
           (bitmap_path (cache_root s) hash_hex part_idx)) \<and>
      (\<forall>x. x \<notin> bitmap_path (cache_root s) hash_hex ` fst ` set (parts_of s hash_hex) \<longrightarrow>
         files fs' x = files fs x))"
proof -
  let ?parts = "parts_of s hash_hex"
  have fl: "flushBitmaps s fs hash_hex = flush_parts hash_hex ?parts (True, s, fs)"
    by (simp add: flushBitmaps_def parts_of_def split: option.splits)
  have out: "fst (flushBitmaps s fs hash_hex) =
     (if \<exists>(part_idx, bits) \<in> set ?parts. fst (persistBitmap s fs hash_hex part_idx bits) = Throws
      then Throws
      else Returns (\<forall>(part_idx, bits) \<in> set ?parts.
                fst (persistBitmap s fs hash_hex part_idx bits) = Returns True))"
    unfolding fl flush_parts_outcome by simp
  have throws: "(fst (flushBitmaps s fs hash_hex) = Throws) =
      (\<exists>(part_idx, bits) \<in> set ?parts.
         fst (persistBitmap s fs hash_hex part_idx bits) = Throws)"
    unfolding out by simp
  have returns: "ok = (\<forall>(part_idx, bits) \<in> set ?parts.
              fst (persistBitmap s fs hash_hex part_idx bits) = Returns True) \<and>
      (\<forall>(part_idx, bits) \<in> set ?parts.
         files fs' (bitmap_path (cache_root s) hash_hex part_idx) =
         files (snd (snd (persistBitmap s fs hash_hex part_idx bits)))
           (bitmap_path (cache_root s) hash_hex part_idx)) \<and>
      (\<forall>x. x \<notin> bitmap_path (cache_root s) hash_hex ` fst ` set ?parts \<longrightarrow>
         files fs' x = files fs x)"
    if r: "flushBitmaps s fs hash_hex = (Returns ok, s', fs')" for ok s' fs'
  proof (intro conjI)
    from r have "fst (flushBitmaps s fs hash_hex) = Returns ok" by simp
    then show "ok = (\<forall>(part_idx, bits) \<in> set ?parts.
              fst (persistBitmap s fs hash_hex part_idx bits) = Returns True)"
      unfolding out by (auto split: if_splits)
  next
    from r have fp: "flush_parts hash_hex ?parts (True, s, fs) = (Returns ok, s', fs')"
      by (simp add: fl)
    show "\<forall>(part_idx, bits) \<in> set ?parts.
         files fs' (bitmap_path (cache_root s) hash_hex part_idx) =
         files (snd (snd (persistBitmap s fs hash_hex part_idx bits)))
           (bitmap_path (cache_root s) hash_hex part_idx)"
      using flush_parts_files [OF fp distinct_parts_of] by auto
    show "\<forall>x. x \<notin> bitmap_path (cache_root s) hash_hex ` fst ` set ?parts \<longrightarrow>
         files fs' x = files fs x"
      using flush_parts_frame [OF fp] by blast
  qed
  from throws returns show ?thesis by blast
qed

theorem flushBitmaps_outcome_witness:
  "fst (flushBitmaps store_two (fs_ok\<lparr>wr_room := (\<lambda>p. Some 2)\<rparr>) ''ab'') = Returns False \<and>
   fst (persistBitmap store_two (fs_ok\<lparr>wr_room := (\<lambda>p. Some 2)\<rparr>) ''ab'' 0 [True]) =
     Returns True \<and>
   fst (persistBitmap store_two (fs_ok\<lparr>wr_room := (\<lambda>p. Some 2)\<rparr>) ''ab'' 2 (replicate 17 True)) =
     Returns False \<and>
   files (snd (snd (flushBitmaps store_two (fs_ok\<lparr>wr_room := (\<lambda>p. Some 2)\<rparr>) ''ab'')))
     (bitmap_path ''/c'' ''ab'' 0) = Some [1] \<and>
   fst (flushBitmaps store_two fs_ok ''ab'') = Returns True \<and>
   files (snd (snd (flushBitmaps store_two fs_ok ''ab''))) (bitmap_path ''/c'' ''ab'' 0) = Some [1]"
proof -
  let ?fs = "fs_ok\<lparr>wr_room := (\<lambda>p. Some 2)\<rparr>"
  have parts: "parts_of store_two ''ab'' = [(0, [True]), (2, replicate 17 True)]"
    by (simp add: parts_of_def DAList.update.rep_eq DAList.empty.rep_eq)
  have p0: "fst (persistBitmap store_two ?fs ''ab'' 0 [True]) = Returns True"
    and p1: "fst (persistBitmap store_two ?fs ''ab'' 2 (replicate 17 True)) = Returns False"
    and q0: "fst (persistBitmap store_two fs_ok ''ab'' 0 [True]) = Returns True"
    and q1: "fst (persistBitmap store_two fs_ok ''ab'' 2 (replicate 17 True)) = Returns True"
    by (simp_all add: persistBitmap_outcome length_pack_bits)
  have w0: "files (snd (snd (persistBitmap store_two ?fs ''ab'' 0 [True])))
      (bitmap_path ''/c'' ''ab'' 0) = Some [1]"
    and v0: "files (snd (snd (persistBitmap store_two fs_ok ''ab'' 0 [True])))
      (bitmap_path ''/c'' ''ab'' 0) = Some [1]"
    by (simp_all add: persistBitmap_def create_directories_def open_trunc_def sys_write_def
        pack_block_0)
  note t1 = flushBitmaps_outcome [of store_two ?fs "''ab''"]
  note t2 = flushBitmaps_outcome [of store_two fs_ok "''ab''"]
  from t1 p0 p1 have nt1: "fst (flushBitmaps store_two ?fs ''ab'') \<noteq> Throws"
    by (simp add: parts)
  then obtain ok1 where o1: "fst (flushBitmaps store_two ?fs ''ab'') = Returns ok1"
    by (cases "fst (flushBitmaps store_two ?fs ''ab'')") auto
  then have e1: "flushBitmaps store_two ?fs ''ab'' =
      (Returns ok1, fst (snd (flushBitmaps store_two ?fs ''ab'')),
       snd (snd (flushBitmaps store_two ?fs ''ab'')))"
    by (simp add: prod_eq_iff)
  from t1 [THEN conjunct2, rule_format, OF e1] p0 p1 w0
  have r1: "ok1 = False" and f1: "files (snd (snd (flushBitmaps store_two ?fs ''ab'')))
     (bitmap_path ''/c'' ''ab'' 0) = Some [1]"
    by (simp_all add: parts)
  from t2 q0 q1 have nt2: "fst (flushBitmaps store_two fs_ok ''ab'') \<noteq> Throws"
    by (simp add: parts)
  then obtain ok2 where o2: "fst (flushBitmaps store_two fs_ok ''ab'') = Returns ok2"
    by (cases "fst (flushBitmaps store_two fs_ok ''ab'')") auto
  then have e2: "flushBitmaps store_two fs_ok ''ab'' =
      (Returns ok2, fst (snd (flushBitmaps store_two fs_ok ''ab'')),
       snd (snd (flushBitmaps store_two fs_ok ''ab'')))"
    by (simp add: prod_eq_iff)
  from t2 [THEN conjunct2, rule_format, OF e2] q0 q1 v0
  have r2: "ok2 = True" and f2: "files (snd (snd (flushBitmaps store_two fs_ok ''ab'')))
     (bitmap_path ''/c'' ''ab'' 0) = Some [1]"
    by (simp_all add: parts)
  from o1 r1 p0 p1 f1 o2 r2 f2 show ?thesis by simp
qed

text \<open>
  C5 as first stated says that the call returns false whenever persisting fails for a
  part. When the directory of a part cannot be created, persisting fails by the
  exception, and so does the call: it does not return false.
\<close>

theorem flushBitmaps_throws_counterexample:
  "fst (persistBitmap (store_part [True]) (fs_ok\<lparr>mkdir_fails := (\<lambda>d. True)\<rparr>) ''ab'' 0 [True]) =
     Throws \<and>
   flushBitmaps (store_part [True]) (fs_ok\<lparr>mkdir_fails := (\<lambda>d. True)\<rparr>) ''ab'' =
     (Throws, store_part [True], fs_ok\<lparr>mkdir_fails := (\<lambda>d. True)\<rparr>)"
  by (simp add: flushBitmaps_def DAList.update.rep_eq DAList.empty.rep_eq persistBitmap_def
      create_directories_def)

text \<open>
  C6: \<^verbatim>\<open>loadBitmap\<close> on a part whose bitmap file does not exist returns success, and
  the missing file counts as no dirty bits: the call sets no bit and changes nothing
  in memory or on disk.
\<close>

theorem loadBitmap_missing_file:
  "\<not> fs_exists fs (bitmap_path (cache_root s) hash_hex part_idx) \<Longrightarrow>
   loadBitmap s fs hash_hex part_idx = (True, s, fs)"
  by (simp add: loadBitmap_def)

theorem loadBitmap_missing_file_witness:
  "\<not> fs_exists fs_ok (bitmap_path ''/c'' ''ab'' 0) \<and>
   loadBitmap store_new fs_ok ''ab'' 0 = (True, store_new, fs_ok)"
proof -
  have h: "\<not> fs_exists fs_ok (bitmap_path (cache_root store_new) ''ab'' 0)"
    by (simp add: fs_exists_def)
  from loadBitmap_missing_file [OF h] h show ?thesis by simp
qed

text \<open>
  C7, as amended: \<^verbatim>\<open>put\<close> is an upsert keyed by the path. After a successful
  \<^verbatim>\<open>put(row)\<close> of a row whose \<^verbatim>\<open>path\<close> and \<^verbatim>\<open>local_path\<close> hold no NUL byte,
  \<^verbatim>\<open>get(row.path)\<close> returns a row whose \<^verbatim>\<open>local_path\<close>, \<^verbatim>\<open>size\<close>, \<^verbatim>\<open>timestamp\<close>,
  \<^verbatim>\<open>last_accessed\<close> and \<^verbatim>\<open>dirty\<close> are those of \<open>row\<close>, whether or not the path had a row
  before. What \<^verbatim>\<open>get\<close> returns is unchanged for every other path, a path being another
  one when its text before the first NUL byte differs from \<^verbatim>\<open>row.path\<close>; every other
  path without a NUL byte is one.
\<close>

theorem put_upsert:
  assumes "put s row = (True, s')"
    and "CHR 0x00 \<notin> set (path row)" and "CHR 0x00 \<notin> set (local_path row)"
  shows "(\<exists>m. get s' (path row) = Some m \<and>
            local_path m = local_path row \<and>
            size_bytes m = size_bytes row \<and>
            timestamp m = timestamp row \<and>
            last_accessed m = last_accessed row \<and>
            dirty m = dirty row) \<and>
         (\<forall>p. c_str p \<noteq> path row \<longrightarrow> get s' p = get s p)"
proof -
  let ?r = "\<lparr>col_local_path = local_path row, col_size = size_bytes row,
             col_timestamp = timestamp row, col_last_accessed = last_accessed row,
             col_dirty = (if dirty row then 1 else 0)\<rparr>"
  have key: "c_str (path row) = path row" and lp: "c_str (local_path row) = local_path row"
    using assms(2,3) by (simp_all add: c_str_id)
  from assms(1) obtain db r db' where db: "db_handle s = Some db" "\<not> step_fails db"
    and st: "sqlite3_step db (Upsert (path row) ?r) = (SQLITE_DONE, r, db')"
    and s': "s' = s\<lparr>db_handle := Some db'\<rparr>"
    unfolding put_def key lp by (blast dest: run_stmt_ok)
  from st db have db': "db' = db\<lparr>metadata := (metadata db)(path row \<mapsto> ?r)\<rparr>"
    by (simp add: sqlite3_step_def)
  have h': "db_handle s' = Some db'" "\<not> step_fails db'"
    using db by (simp_all add: s' db')
  have "get s' (path row) =
          Some \<lparr>path = path row, local_path = local_path row, size_bytes = size_bytes row,
                timestamp = timestamp row, last_accessed = last_accessed row,
                dirty = dirty row\<rparr>"
    by (simp add: get_open [OF h'] db' key lp)
  moreover have "get s' p = get s p" if "c_str p \<noteq> path row" for p
    using that by (simp add: get_open [OF h'] get_open [OF db] db')
  ultimately show ?thesis by simp
qed

theorem put_upsert_witness:
  "fst (put store_db row_a) = True \<and>
   CHR 0x00 \<notin> set (path row_a) \<and> CHR 0x00 \<notin> set (local_path row_a) \<and>
   (\<exists>m. get (snd (put store_db row_a)) ''/a'' = Some m \<and>
        local_path m = ''/c/new'' \<and> size_bytes m = 5 \<and> timestamp m = 7 \<and>
        last_accessed m = 9 \<and> dirty m = True) \<and>
   get store_db ''/a'' =
     Some \<lparr>path = ''/a'', local_path = ''/c/old'', size_bytes = 1, timestamp = 2,
           last_accessed = 3, dirty = False\<rparr> \<and>
   fst (put store_db (row_a\<lparr>path := ''/b''\<rparr>)) = True \<and>
   (\<exists>m. get (snd (put store_db (row_a\<lparr>path := ''/b''\<rparr>))) ''/b'' = Some m \<and>
        local_path m = ''/c/new'' \<and> dirty m = True) \<and>
   get (snd (put store_db (row_a\<lparr>path := ''/b''\<rparr>))) ''/a'' = get store_db ''/a''"
proof -
  have f1: "fst (put store_db row_a) = True"
    by (simp add: put_def run_stmt_def sqlite3_prepare_v2_def sqlite3_step_def)
  have f2: "fst (put store_db (row_a\<lparr>path := ''/b''\<rparr>)) = True"
    by (simp add: put_def run_stmt_def sqlite3_prepare_v2_def sqlite3_step_def)
  have h1: "put store_db row_a = (True, snd (put store_db row_a))"
    using f1 by (simp add: prod_eq_iff)
  have h2: "put store_db (row_a\<lparr>path := ''/b''\<rparr>) =
              (True, snd (put store_db (row_a\<lparr>path := ''/b''\<rparr>)))"
    using f2 by (simp add: prod_eq_iff)
  have n1: "CHR 0x00 \<notin> set (path row_a)" and n2: "CHR 0x00 \<notin> set (local_path row_a)"
    by simp_all
  have n3: "CHR 0x00 \<notin> set (path (row_a\<lparr>path := ''/b''\<rparr>))"
    and n4: "CHR 0x00 \<notin> set (local_path (row_a\<lparr>path := ''/b''\<rparr>))"
    by simp_all
  have old: "get store_db ''/a'' =
     Some \<lparr>path = ''/a'', local_path = ''/c/old'', size_bytes = 1, timestamp = 2,
           last_accessed = 3, dirty = False\<rparr>"
    by (simp add: get_def sqlite3_prepare_v2_def sqlite3_step_def c_str_def)
  from put_upsert [OF h1 n1 n2] have a:
    "\<exists>m. get (snd (put store_db row_a)) ''/a'' = Some m \<and>
        local_path m = ''/c/new'' \<and> size_bytes m = 5 \<and> timestamp m = 7 \<and>
        last_accessed m = 9 \<and> dirty m = True"
    by simp
  have k: "c_str ''/a'' \<noteq> ''/b''" by (simp add: c_str_def)
  from put_upsert [OF h2 n3 n4] have b:
    "\<exists>m. get (snd (put store_db (row_a\<lparr>path := ''/b''\<rparr>))) ''/b'' = Some m \<and>
        local_path m = ''/c/new'' \<and> dirty m = True"
    and c: "get (snd (put store_db (row_a\<lparr>path := ''/b''\<rparr>))) ''/a'' = get store_db ''/a''"
    using k by auto
  from f1 n1 n2 a old f2 b c show ?thesis by (intro conjI)
qed

text \<open>
  C7 as first stated fails for text with a NUL byte. A \<^verbatim>\<open>local_path\<close> \<^verbatim>\<open>"x\0y"\<close> is
  stored and returned as \<^verbatim>\<open>"x"\<close>; a \<^verbatim>\<open>put\<close> with the path \<^verbatim>\<open>"/a\0b"\<close> replaces the row
  of the different path \<^verbatim>\<open>"/a"\<close>.
\<close>

theorem put_upsert_nul_counterexample:
  "fst (put store_db (row_a\<lparr>path := ''/n'', local_path := ''x'' @ [CHR 0x00] @ ''y''\<rparr>)) = True \<and>
   get (snd (put store_db (row_a\<lparr>path := ''/n'', local_path := ''x'' @ [CHR 0x00] @ ''y''\<rparr>)))
       ''/n'' =
     Some \<lparr>path = ''/n'', local_path = ''x'', size_bytes = 5, timestamp = 7,
           last_accessed = 9, dirty = True\<rparr> \<and>
   fst (put store_db (row_a\<lparr>path := ''/a'' @ [CHR 0x00] @ ''b''\<rparr>)) = True \<and>
   ''/a'' \<noteq> ''/a'' @ [CHR 0x00] @ ''b'' \<and>
   get store_db ''/a'' =
     Some \<lparr>path = ''/a'', local_path = ''/c/old'', size_bytes = 1, timestamp = 2,
           last_accessed = 3, dirty = False\<rparr> \<and>
   get (snd (put store_db (row_a\<lparr>path := ''/a'' @ [CHR 0x00] @ ''b''\<rparr>))) ''/a'' =
     Some \<lparr>path = ''/a'', local_path = ''/c/new'', size_bytes = 5, timestamp = 7,
           last_accessed = 9, dirty = True\<rparr>"
  by (simp add: put_def run_stmt_def sqlite3_prepare_v2_def sqlite3_step_def get_def c_str_def)




text \<open>
  C9: \<^verbatim>\<open>loadBitmap\<close> replaces the vector in memory, it does not merge. After a
  successful call on an existing bitmap file, the vector of the part is exactly the
  bits decoded from the read buffer as it was allocated, eight per byte; it has no
  further entries, so whatever was set in memory beyond that length is gone.
\<close>

theorem loadBitmap_replaces:
  assumes "fs_exists fs (bitmap_path (cache_root s) hash_hex part_idx)"
    and "loadBitmap s fs hash_hex part_idx = (True, s', fs')"
  shows "\<exists>vec. bits_of s' hash_hex part_idx = Some vec \<and>
           length (load_buffer s fs hash_hex part_idx) =
             (file_size fs (bitmap_path (cache_root s) hash_hex part_idx) + 7) div 8 \<and>
           length vec = 8 * length (load_buffer s fs hash_hex part_idx) \<and>
           (\<forall>k<length vec.
              vec ! k =
                (((ucast (load_buffer s fs hash_hex part_idx ! (k div 8)) :: u32)
                    AND push_bit (k mod 8) 1) \<noteq> 0))"
  using assms by (rule loadBitmap_decodes)

theorem loadBitmap_replaces_witness:
  "fs_exists (fs_with [5, 255]) (bitmap_path ''/c'' ''ab'' 0) \<and>
   loadBitmap (store_part [False, False, False, False, False, False, False, False, False, True])
       (fs_with [5, 255]) ''ab'' 0 =
     (True, store_part [True, False, True, False, False, False, False, False],
      fs_with [5, 255]) \<and>
   load_buffer (store_part [False, False, False, False, False, False, False, False, False, True])
       (fs_with [5, 255]) ''ab'' 0 = [5] \<and>
   (\<exists>vec. bits_of (store_part [True, False, True, False, False, False, False, False])
             ''ab'' 0 = Some vec \<and>
      length vec = 8)"
proof -
  let ?s = "store_part [False, False, False, False, False, False, False, False, False, True]"
  let ?fs = "fs_with [5, 255]"
  have h1: "fs_exists ?fs (bitmap_path (cache_root ?s) ''ab'' 0)"
    by (simp add: fs_exists_def)
  have h2: "loadBitmap ?s ?fs ''ab'' 0 =
     (True, store_part [True, False, True, False, False, False, False, False], ?fs)"
    by (simp add: loadBitmap_def fs_exists_def open_rdonly_def file_size_def sys_pread_def
        vec_at_def bits_of_def vec_store_def resize_def unpack_byte_5 Let_def)
  have b: "load_buffer ?s ?fs ''ab'' 0 = [5]"
    by (simp add: load_buffer_def file_size_def sys_pread_def Let_def)
  from loadBitmap_replaces [OF h1 h2] h1 h2 b show ?thesis by auto
qed

text \<open>
  C10: \<^verbatim>\<open>flushBitmaps\<close> returns true and creates or writes no file when the object has
  no entry in memory, and likewise when its vectors are empty. An empty vector is
  skipped and counts as success: \<^verbatim>\<open>persistBitmap\<close> on it returns true and touches
  nothing, and the loop ends as it would without that part.
\<close>

theorem flushBitmaps_nothing_to_write:
  "(bitmap s hash_hex = None \<longrightarrow> flushBitmaps s fs hash_hex = (Returns True, s, fs)) \<and>
   (list_all (\<lambda>(part_idx, bits). bits = []) (parts_of s hash_hex) \<longrightarrow>
      flushBitmaps s fs hash_hex = (Returns True, s, fs)) \<and>
   persistBitmap s fs hash_hex part_idx [] = (Returns True, s, fs) \<and>
   flush_parts hash_hex (xs @ (part_idx, []) # ys) (ok, s, fs) =
     flush_parts hash_hex (xs @ ys) (ok, s, fs)"
  by (auto simp: flushBitmaps_def parts_of_def flush_parts_empty flush_parts_skips_empty
      persistBitmap_def split: option.splits)

theorem flushBitmaps_nothing_to_write_witness:
  "flushBitmaps store_new fs_ok ''ab'' = (Returns True, store_new, fs_ok) \<and>
   flushBitmaps (store_part []) fs_ok ''ab'' = (Returns True, store_part [], fs_ok) \<and>
   persistBitmap (store_part []) fs_ok ''ab'' 0 [] = (Returns True, store_part [], fs_ok)"
  using flushBitmaps_nothing_to_write [of store_new "''ab''" fs_ok 0]
    flushBitmaps_nothing_to_write [of "store_part []" "''ab''" fs_ok 0]
  by (simp add: parts_of_def DAList.update.rep_eq DAList.empty.rep_eq)

end
